theory Spec2Isabelle
  imports Main "HOL-Library.List_Lexorder" "HOL-Library.Multiset"
begin

section \<open>Python strings\<close>

text \<open>
  A Python \<open>str\<close> is a sequence of Unicode code points; \<open>len\<close> counts code points and
  comparison is lexicographic on them.  A code point is a natural number here, and
  \<open>py\<close> turns an (ASCII) literal into such a string.
\<close>

type_synonym pystr = "nat list"

definition py :: "string \<Rightarrow> pystr" where
  "py s = map of_char s"

definition LF :: nat where
  "LF = 0x0A"

definition CR :: nat where
  "CR = 0x0D"

text \<open>
  \<open>str.isspace\<close> for one code point, which is what \<open>strip()\<close> and \<open>rstrip()\<close> without
  an argument remove: the ASCII whitespace 0x09-0x0D, 0x1C-0x1F and 0x20, and the Unicode
  whitespace beyond ASCII.
\<close>

definition isspace :: "nat \<Rightarrow> bool" where
  "isspace c \<longleftrightarrow>
     (0x09 \<le> c \<and> c \<le> 0x0D) \<or> (0x1C \<le> c \<and> c \<le> 0x20) \<or> c = 0x85 \<or> c = 0xA0 \<or>
     c = 0x1680 \<or> (0x2000 \<le> c \<and> c \<le> 0x200A) \<or> c = 0x2028 \<or> c = 0x2029 \<or>
     c = 0x202F \<or> c = 0x205F \<or> c = 0x3000"

definition lstrip :: "pystr \<Rightarrow> pystr" where
  "lstrip s = dropWhile isspace s"

definition rstrip :: "pystr \<Rightarrow> pystr" where
  "rstrip s = rev (dropWhile isspace (rev s))"

definition strip :: "pystr \<Rightarrow> pystr" where
  "strip s = rstrip (lstrip s)"

text \<open>\<open>s.rstrip(chars)\<close>: the trailing characters that occur in \<open>chars\<close> are removed.\<close>

definition rstrip_chars :: "pystr \<Rightarrow> pystr \<Rightarrow> pystr" where
  "rstrip_chars s chars = rev (dropWhile (\<lambda>c. c \<in> set chars) (rev s))"

definition endswith :: "pystr \<Rightarrow> pystr \<Rightarrow> bool" where
  "endswith s suffix \<longleftrightarrow>
     length suffix \<le> length s \<and> drop (length s - length suffix) s = suffix"

definition startswith :: "pystr \<Rightarrow> pystr \<Rightarrow> bool" where
  "startswith s prefix \<longleftrightarrow> take (length prefix) s = prefix"

text \<open>\<open>str(n)\<close> for a non-negative integer: its decimal digits.\<close>

function str_nat :: "nat \<Rightarrow> pystr" where
  "str_nat n = (if n < 10 then [0x30 + n] else str_nat (n div 10) @ [0x30 + n mod 10])"
  by pat_completeness auto
termination
  by (relation "measure (\<lambda>n. n)") auto

declare str_nat.simps [simp del]

section \<open>The two whitespace rules on one line\<close>

text \<open>
  The body of the loop of \<open>fix_whitespace_in_file\<close> for one line: which rule fired and
  the value stored into \<open>lines[i]\<close>.  The blank-line check comes first; the
  trailing-whitespace check is its \<open>elif\<close>.
\<close>

datatype fix_kind = W293 | W291 | NoFix

definition fix_line :: "pystr \<Rightarrow> fix_kind \<times> pystr" where
  "fix_line line =
     (if strip line = [] \<and> length line > 1 then
        (W293, if endswith line [LF] then [LF] else [])
      else if rstrip line \<noteq> rstrip_chars (rstrip_chars line [LF]) [CR, LF] then
        (W291,
         if endswith line [CR, LF] then rstrip line @ [CR, LF]
         else if endswith line [LF] then rstrip line @ [LF]
         else rstrip line)
      else (NoFix, line))"

text \<open>
  The loop over all lines, with the two counters threaded through; the result is the
  rewritten list and the final counters.
\<close>

fun fix_lines :: "pystr list \<Rightarrow> nat \<Rightarrow> nat \<Rightarrow> pystr list \<times> nat \<times> nat" where
  "fix_lines [] w293_count w291_count = ([], w293_count, w291_count)"
| "fix_lines (line # rest) w293_count w291_count =
     (case fix_line line of
        (W293, new) \<Rightarrow>
          (case fix_lines rest (w293_count + 1) w291_count of
             (lines, c) \<Rightarrow> (new # lines, c))
      | (W291, new) \<Rightarrow>
          (case fix_lines rest w293_count (w291_count + 1) of
             (lines, c) \<Rightarrow> (new # lines, c))
      | (NoFix, new) \<Rightarrow>
          (case fix_lines rest w293_count w291_count of
             (lines, c) \<Rightarrow> (new # lines, c)))"

section \<open>Text files\<close>

text \<open>
  \<open>open(filepath, 'r', encoding='utf-8')\<close> reads in text mode with universal newlines:
  every \<open>\r\n\<close> and every lone \<open>\r\<close> of the decoded text arrives as \<open>\n\<close>.
\<close>

fun universal_newlines :: "pystr \<Rightarrow> pystr" where
  "universal_newlines [] = []"
| "universal_newlines [c] = (if c = CR then [LF] else [c])"
| "universal_newlines (c # d # s) =
     (if c = CR \<and> d = LF then LF # universal_newlines s
      else if c = CR then LF # universal_newlines (d # s)
      else c # universal_newlines (d # s))"

text \<open>\<open>readlines()\<close> cuts the translated text after every \<open>\n\<close>; each line keeps its own.\<close>

fun split_lines :: "pystr \<Rightarrow> pystr list" where
  "split_lines [] = []"
| "split_lines (c # s) =
     (if c = LF then [LF] # split_lines s
      else (case split_lines s of
              [] \<Rightarrow> [[c]]
            | line # lines \<Rightarrow> (c # line) # lines))"

definition readlines :: "pystr \<Rightarrow> pystr list" where
  "readlines text = split_lines (universal_newlines text)"

text \<open>
  Writing in text mode replaces every \<open>\n\<close> by \<open>os.linesep\<close>, which is \<open>\n\<close> on POSIX
  and \<open>\r\n\<close> on Windows.
\<close>

datatype platform = Posix | Nt

fun linesep :: "platform \<Rightarrow> pystr" where
  "linesep Posix = [LF]"
| "linesep Nt = [CR, LF]"

definition writelines :: "platform \<Rightarrow> pystr list \<Rightarrow> pystr" where
  "writelines os lines = concat (map (\<lambda>c. if c = LF then linesep os else [c]) (concat lines))"

section \<open>The file system and the output streams\<close>

text \<open>
  A file has its decoded text, the error raised when it is opened and read (missing,
  permission denied, not UTF-8), the error raised when it is opened for writing, the
  error raised by \<open>writelines\<close> or by the close once the open has succeeded, and the
  number of times it has been overwritten, which stands for its modification time.
  The exception is kept as its message, which is all the handlers use.

  A failed open for writing leaves the file as it was.  A write that fails after the open
  has truncated the file leaves the lines that had reached the file, and it has modified
  the file; the number of those lines comes with the error.
\<close>

datatype error = Exception pystr

record text_file =
  content :: pystr
  read_error :: "error option"
  write_error :: "error option"
  torn_write :: "(error \<times> nat) option"
  writes :: nat

text \<open>A directory: the names of its files and its subdirectories, in listing order.\<close>

datatype dir = Dir (dir_files: "pystr list") (subdirs: "(pystr \<times> dir) list")

record world =
  os_name :: platform
  cwd :: dir
  files :: "pystr \<Rightarrow> text_file"
  stdout :: "pystr list"
  stderr :: "pystr list"

text \<open>\<open>print(s)\<close> writes to standard output; one entry of \<open>stdout\<close> per call.\<close>

definition print :: "pystr \<Rightarrow> world \<Rightarrow> world" where
  "print s w = w\<lparr>stdout := stdout w @ [s]\<rparr>"

definition open_read :: "pystr \<Rightarrow> world \<Rightarrow> error + pystr list" where
  "open_read filepath w =
     (case read_error (files w filepath) of
        Some e \<Rightarrow> Inl e
      | None \<Rightarrow> Inr (readlines (content (files w filepath))))"

text \<open>The file holds a new text, and has been modified once more.\<close>

definition overwrite :: "pystr \<Rightarrow> pystr \<Rightarrow> world \<Rightarrow> world" where
  "overwrite filepath text w =
     w\<lparr>files := (files w)
         (filepath := (files w filepath)
            \<lparr>content := text, writes := writes (files w filepath) + 1\<rparr>)\<rparr>"

text \<open>
  The \<open>with open(filepath, 'w')\<close> block around \<open>f.writelines(lines)\<close>: the world
  after it, or the exception it raised together with the world it left.
\<close>

definition open_write :: "pystr \<Rightarrow> pystr list \<Rightarrow> world \<Rightarrow> error \<times> world + world" where
  "open_write filepath lines w =
     (case write_error (files w filepath) of
        Some e \<Rightarrow> Inl (e, w)
      | None \<Rightarrow>
          (case torn_write (files w filepath) of
             Some (e, k) \<Rightarrow>
               Inl (e, overwrite filepath (writelines (os_name w) (take k lines)) w)
           | None \<Rightarrow> Inr (overwrite filepath (writelines (os_name w) lines) w)))"

section \<open>The Whitespace Fixer\<close>

fun str_error :: "error \<Rightarrow> pystr" where
  "str_error (Exception msg) = msg"

definition fix_whitespace_in_file :: "pystr \<Rightarrow> world \<Rightarrow> (nat \<times> nat) \<times> world" where
  "fix_whitespace_in_file filepath w =
     (case open_read filepath w of
        Inl e \<Rightarrow>
          ((0, 0), print (py ''Error reading '' @ filepath @ py '': '' @ str_error e) w)
      | Inr original_lines \<Rightarrow>
          (case fix_lines original_lines 0 0 of
             (lines, w293_count, w291_count) \<Rightarrow>
               if lines \<noteq> original_lines then
                 (case open_write filepath lines w of
                    Inl (e, w') \<Rightarrow>
                      ((0, 0),
                       print (py ''Error writing '' @ filepath @ py '': '' @ str_error e) w')
                  | Inr w' \<Rightarrow> ((w293_count, w291_count), w'))
               else ((w293_count, w291_count), w)))"

section \<open>The File Discoverer\<close>

text \<open>
  \<open>os.path.join\<close> of two components, as \<open>posixpath\<close> has it.  The platform of a
  world decides \<open>os.linesep\<close> only; paths are joined with a slash throughout.
\<close>

definition path_join :: "pystr \<Rightarrow> pystr \<Rightarrow> pystr" where
  "path_join a b =
     (if startswith b (py ''/'') then b
      else if a = [] \<or> endswith a (py ''/'') then a @ b
      else a @ py ''/'' @ b)"

definition skipped :: "pystr \<Rightarrow> bool" where
  "skipped d \<longleftrightarrow>
     startswith d (py ''.'') \<or>
     d \<in> set [py ''__pycache__'', py ''venv'', py ''env'', py ''build'', py ''dist'']"

text \<open>
  \<open>os.walk\<close> top down: the files of a directory are visited, its list of subdirectories
  is pruned in place, and the walk goes on into the ones that are left, in order.
\<close>

fun find_python_files :: "pystr \<Rightarrow> dir \<Rightarrow> pystr list" where
  "find_python_files root (Dir fs ds) =
     map (path_join root) (filter (\<lambda>file. endswith file (py ''.py'')) fs) @
     concat (map (\<lambda>(d, sub). find_python_files (path_join root d) sub)
                 (filter (\<lambda>(d, sub). \<not> skipped d) ds))"

section \<open>The driver\<close>

definition fixed_line :: "pystr \<Rightarrow> nat \<Rightarrow> nat \<Rightarrow> pystr" where
  "fixed_line filepath w293 w291 =
     filepath @ py '': Fixed W293='' @ str_nat w293 @ py '', W291='' @ str_nat w291"

text \<open>
  The loop of \<open>main\<close> over the sorted paths; the three totals and the world are threaded
  through.
\<close>

fun main_loop :: "pystr list \<Rightarrow> nat \<times> nat \<times> nat \<Rightarrow> world \<Rightarrow> (nat \<times> nat \<times> nat) \<times> world" where
  "main_loop [] totals w = (totals, w)"
| "main_loop (filepath # rest) (total_w293, total_w291, files_fixed) w =
     (case fix_whitespace_in_file filepath w of
        ((w293, w291), w') \<Rightarrow>
          if w293 > 0 \<or> w291 > 0 then
            main_loop rest (total_w293 + w293, total_w291 + w291, files_fixed + 1)
              (print (fixed_line filepath w293 w291) w')
          else main_loop rest (total_w293, total_w291, files_fixed) w')"

definition root_dir :: pystr where
  "root_dir = py ''.''"



section \<open>Notions used in the statements\<close>

text \<open>The terminator of a line, by the tests the fixer makes on it.\<close>

definition nl_of :: "pystr \<Rightarrow> pystr" where
  "nl_of l = (if endswith l [CR, LF] then [CR, LF] else if endswith l [LF] then [LF] else [])"

text \<open>The two-step strip of the terminator removes the trailing CR and LF characters.\<close>

definition strip_nl :: "pystr \<Rightarrow> pystr" where
  "strip_nl s = rstrip_chars (rstrip_chars s [LF]) [CR, LF]"

text \<open>Lines as \<open>readlines\<close> returns them: no CR, and LF only as the last character.\<close>

definition wf_line :: "pystr \<Rightarrow> bool" where
  "wf_line l \<longleftrightarrow> CR \<notin> set l \<and> LF \<notin> set (butlast l)"

text \<open>
  A list of lines as \<open>readlines\<close> returns it: every line but the last ends with LF.
\<close>

primrec wf_lines :: "pystr list \<Rightarrow> bool" where
  "wf_lines [] = True"
| "wf_lines (l # ls) = (wf_line l \<and> (ls = [] \<or> endswith l [LF]) \<and> wf_lines ls)"

text \<open>The diagnostics of the two handlers.\<close>

definition read_diag :: "pystr \<Rightarrow> error \<Rightarrow> pystr" where
  "read_diag filepath e = py ''Error reading '' @ filepath @ py '': '' @ str_error e"

definition write_diag :: "pystr \<Rightarrow> error \<Rightarrow> pystr" where
  "write_diag filepath e = py ''Error writing '' @ filepath @ py '': '' @ str_error e"

text \<open>
  The world after the file has been overwritten with the fixed lines, and the world after
  a write that failed when \<open>k\<close> of the fixed lines had reached the file.
\<close>

definition rewritten :: "pystr \<Rightarrow> world \<Rightarrow> world" where
  "rewritten p w =
     overwrite p
       (writelines (os_name w) (fst (fix_lines (readlines (content (files w p))) 0 0))) w"

definition torn :: "pystr \<Rightarrow> nat \<Rightarrow> world \<Rightarrow> world" where
  "torn p k w =
     overwrite p
       (writelines (os_name w) (take k (fst (fix_lines (readlines (content (files w p))) 0 0))))
       w"




section \<open>Example worlds\<close>

text \<open>
  A world with one Python file, \<open>./a.py\<close>, in the working directory, and the files it
  is tried with: an ordinary one, one that cannot be opened at all, one that cannot be
  opened for writing, and one on a full disk, where the write fails once the file has been
  truncated.
\<close>

definition plain_file :: "pystr \<Rightarrow> text_file" where
  "plain_file text =
     \<lparr>content = text, read_error = None, write_error = None, torn_write = None, writes = 0\<rparr>"

definition absent_file :: text_file where
  "absent_file =
     \<lparr>content = [], read_error = Some (Exception (py ''No such file or directory'')),
      write_error = None, torn_write = None, writes = 0\<rparr>"

definition one_file_world :: "platform \<Rightarrow> text_file \<Rightarrow> world" where
  "one_file_world os f =
     \<lparr>os_name = os, cwd = Dir [py ''a.py''] [],
      files = (\<lambda>p. if p = py ''./a.py'' then f else absent_file),
      stdout = [], stderr = []\<rparr>"

definition unreadable_file :: text_file where
  "unreadable_file =
     \<lparr>content = py ''x = 1  '' @ [LF], read_error = Some (Exception (py ''Permission denied'')),
      write_error = Some (Exception (py ''Permission denied'')), torn_write = None,
      writes = 0\<rparr>"

definition read_only_file :: "pystr \<Rightarrow> text_file" where
  "read_only_file text =
     \<lparr>content = text, read_error = None,
      write_error = Some (Exception (py ''Read-only file system'')), torn_write = None,
      writes = 0\<rparr>"

definition full_disk_file :: "pystr \<Rightarrow> text_file" where
  "full_disk_file text =
     \<lparr>content = text, read_error = None, write_error = None,
      torn_write = Some (Exception (py ''No space left on device''), 0), writes = 0\<rparr>"

text \<open>A tree with a hidden directory at the root and a virtual environment below.\<close>

definition example_tree :: dir where
  "example_tree =
     Dir [py ''a.py'', py ''notes.txt'']
       [(py ''.git'', Dir [py ''hook.py''] []),
        (py ''src'', Dir [py ''m.py''] [(py ''venv'', Dir [py ''v.py''] [])])]"


lemmas line_eval = py_def LF_def CR_def isspace_def strip_def lstrip_def rstrip_def
  rstrip_chars_def endswith_def fix_line_def readlines_def

lemmas file_eval = fix_whitespace_in_file_def open_read_def open_write_def print_def
  overwrite_def writelines_def one_file_world_def plain_file_def absent_file_def
  unreadable_file_def read_only_file_def full_disk_file_def


section \<open>Stripping\<close>

lemma isspace_LF: "isspace LF" by (simp add: isspace_def LF_def)
lemma isspace_CR: "isspace CR" by (simp add: isspace_def CR_def)
lemma CR_neq_LF: "CR \<noteq> LF" by (simp add: CR_def LF_def)

lemma endswith_LF: "endswith s [LF] \<longleftrightarrow> s \<noteq> [] \<and> last s = LF"
proof (cases s rule: rev_cases)
  case Nil
  then show ?thesis by (simp add: endswith_def)
next
  case (snoc ys y)
  then show ?thesis by (simp add: endswith_def)
qed

lemma endswith_CRLF: "endswith s [CR, LF] \<Longrightarrow> CR \<in> set s \<and> endswith s [LF] \<and> 2 \<le> length s"
proof -
  assume a: "endswith s [CR, LF]"
  then have d: "drop (length s - length [CR, LF]) s = [CR, LF]"
    and l: "length [CR, LF] \<le> length s"
    by (simp_all only: endswith_def)
  have "s = take (length s - length [CR, LF]) s @ [CR, LF]"
    using d append_take_drop_id [of "length s - length [CR, LF]" s] by metis
  then obtain p where "s = p @ [CR, LF]" ..
  then show ?thesis using l by (simp add: endswith_LF)
qed

text \<open>Stripping a set of characters from the right.\<close>

lemma rstripP_split:
  "s = rev (dropWhile P (rev s)) @ rev (takeWhile P (rev s))"
proof -
  have "rev (dropWhile P (rev s)) @ rev (takeWhile P (rev s)) =
        rev (takeWhile P (rev s) @ dropWhile P (rev s))"
    by (simp only: rev_append)
  also have "\<dots> = rev (rev s)" by (simp only: takeWhile_dropWhile_id)
  finally show ?thesis by simp
qed

lemma rstripP_last:
  "rev (dropWhile P (rev s)) = [] \<or> \<not> P (last (rev (dropWhile P (rev s))))"
proof (cases "dropWhile P (rev s)")
  case Nil
  then show ?thesis by simp
next
  case (Cons a as)
  then have "\<not> P a" using hd_dropWhile [of P "rev s"] by simp
  with Cons show ?thesis by simp
qed

lemma rstripP_append:
  assumes "r = [] \<or> \<not> P (last r)" and "\<forall>c\<in>set t. P c"
  shows "rev (dropWhile P (rev (r @ t))) = r"
proof -
  have "dropWhile P (rev t @ rev r) = dropWhile P (rev r)"
    by (rule dropWhile_append2) (use assms(2) in auto)
  moreover have "dropWhile P (rev r) = rev r"
    using assms(1) by (cases r rule: rev_cases) auto
  ultimately show ?thesis by simp
qed

lemma rstrip_split: "\<exists>t. s = rstrip s @ t \<and> (\<forall>c\<in>set t. isspace c)"
proof -
  have "s = rstrip s @ rev (takeWhile isspace (rev s))"
    unfolding rstrip_def by (rule rstripP_split)
  moreover have "\<forall>c\<in>set (rev (takeWhile isspace (rev s))). isspace c"
    by (auto dest: set_takeWhileD)
  ultimately show ?thesis by blast
qed

lemma rstrip_last: "rstrip s = [] \<or> \<not> isspace (last (rstrip s))"
  unfolding rstrip_def by (rule rstripP_last)

lemma rstrip_append:
  "r = [] \<or> \<not> isspace (last r) \<Longrightarrow> \<forall>c\<in>set t. isspace c \<Longrightarrow> rstrip (r @ t) = r"
  unfolding rstrip_def by (rule rstripP_append)

lemma rstrip_Nil_iff: "rstrip s = [] \<longleftrightarrow> (\<forall>c\<in>set s. isspace c)"
proof
  assume "rstrip s = []"
  with rstrip_split [of s] show "\<forall>c\<in>set s. isspace c" by auto
next
  assume "\<forall>c\<in>set s. isspace c"
  then show "rstrip s = []" using rstrip_append [of "[]" s] by simp
qed

lemma strip_Nil_iff: "strip s = [] \<longleftrightarrow> (\<forall>c\<in>set s. isspace c)"
proof
  assume "strip s = []"
  then have "\<forall>c\<in>set (dropWhile isspace s). isspace c"
    by (simp add: strip_def lstrip_def rstrip_Nil_iff)
  moreover have "\<forall>c\<in>set (takeWhile isspace s). isspace c"
    by (auto dest: set_takeWhileD)
  moreover have "set s = set (takeWhile isspace s) \<union> set (dropWhile isspace s)"
    using set_append [of "takeWhile isspace s" "dropWhile isspace s"] by simp
  ultimately show "\<forall>c\<in>set s. isspace c" by auto
next
  assume a: "\<forall>c\<in>set s. isspace c"
  then have "dropWhile isspace s = []" by (induction s) simp_all
  then show "strip s = []" by (simp only: strip_def lstrip_def rstrip_def) simp
qed

lemma strip_nl_append:
  assumes "r = [] \<or> (last r \<noteq> CR \<and> last r \<noteq> LF)" and "\<forall>c\<in>set t. c = CR \<or> c = LF"
  shows "strip_nl (r @ t) = r"
proof -
  let ?P = "\<lambda>c. c \<in> set [CR, LF]"
  let ?Q = "\<lambda>c. c \<in> set [LF]"
  obtain u where u: "r @ t = rstrip_chars (r @ t) [LF] @ u" 
    unfolding rstrip_chars_def using rstripP_split [of "r @ t" ?Q] by blast
  have uQ: "\<forall>c\<in>set (rev (takeWhile ?Q (rev (r @ t)))). ?P c"
    by (auto dest: set_takeWhileD)
  have eq: "r @ t = rstrip_chars (r @ t) [LF] @ rev (takeWhile ?Q (rev (r @ t)))"
    unfolding rstrip_chars_def by (rule rstripP_split)
  have one: "rev (dropWhile ?P (rev (r @ t))) = r"
    by (rule rstripP_append) (use assms in auto)
  have "rev (dropWhile ?P (rev (rstrip_chars (r @ t) [LF] @ rev (takeWhile ?Q (rev (r @ t)))))) =
        rev (dropWhile ?P (rev (rstrip_chars (r @ t) [LF])))"
    using uQ by (simp only: rev_append rev_rev_ident) (rule arg_cong [where f = rev], rule dropWhile_append2, auto dest: set_takeWhileD)
  with eq one have "rev (dropWhile ?P (rev (rstrip_chars (r @ t) [LF]))) = r" by simp
  then show ?thesis by (simp add: strip_nl_def rstrip_chars_def)
qed


lemma fix_line_alt:
  "fix_line line =
     (if strip line = [] \<and> length line > 1 then
        (W293, if endswith line [LF] then [LF] else [])
      else if rstrip line \<noteq> strip_nl line then
        (W291,
         if endswith line [CR, LF] then rstrip line @ [CR, LF]
         else if endswith line [LF] then rstrip line @ [LF]
         else rstrip line)
      else (NoFix, line))"
  by (simp only: fix_line_def strip_nl_def)

lemma fix_line_rule1:
  assumes "strip l = [] \<and> length l > 1"
  shows "fix_line l = (W293, if endswith l [LF] then [LF] else [])"
  using assms by (simp add: fix_line_alt)

lemma fix_line_rule2:
  assumes "\<not> (strip l = [] \<and> length l > 1)" and "rstrip l \<noteq> strip_nl l"
  shows "fix_line l = (W291, rstrip l @ nl_of l)"
  by (simp only: fix_line_alt assms if_False if_True not_False_eq_True nl_of_def) simp

lemma fix_line_rule0:
  assumes "\<not> (strip l = [] \<and> length l > 1)" and "rstrip l = strip_nl l"
  shows "fix_line l = (NoFix, l)"
  by (simp only: fix_line_alt assms if_False not_True_eq_False simp_thms)

lemma nl_of_cases: "nl_of l = [] \<or> nl_of l = [LF] \<or> nl_of l = [CR, LF]"
  by (simp add: nl_of_def)

lemma not_space_not_nl: "\<not> isspace c \<Longrightarrow> c \<noteq> CR \<and> c \<noteq> LF"
  using isspace_CR isspace_LF by auto

lemma fix_line_stable:
  assumes r: "r = [] \<or> \<not> isspace (last r)"
    and t: "t = [] \<or> t = [LF] \<or> t = [CR, LF]"
    and short: "r = [] \<longrightarrow> length t \<le> 1"
  shows "fix_line (r @ t) = (NoFix, r @ t)"
proof -
  have tsp: "\<forall>c\<in>set t. isspace c" using t isspace_CR isspace_LF by auto
  have tnl: "\<forall>c\<in>set t. c = CR \<or> c = LF" using t by auto
  have rule1: "\<not> (strip (r @ t) = [] \<and> length (r @ t) > 1)"
  proof (cases "r = []")
    case True
    with short show ?thesis by simp
  next
    case False
    with r have "\<not> isspace (last r)" by simp
    moreover have "last r \<in> set (r @ t)" using False by simp
    ultimately have "strip (r @ t) \<noteq> []" unfolding strip_Nil_iff by blast
    then show ?thesis by simp
  qed
  have "rstrip (r @ t) = r" using r tsp by (rule rstrip_append)
  moreover have "strip_nl (r @ t) = r"
    by (rule strip_nl_append) (use r tnl not_space_not_nl in auto)
  ultimately have "rstrip (r @ t) = strip_nl (r @ t)" by simp
  with rule1 show ?thesis by (rule fix_line_rule0)
qed

lemma fix_line_idem: "fix_line (snd (fix_line l)) = (NoFix, snd (fix_line l))"
proof (cases "strip l = [] \<and> length l > 1")
  case True
  have "fix_line ([] @ (if endswith l [LF] then [LF] else [])) =
        (NoFix, [] @ (if endswith l [LF] then [LF] else []))"
    by (rule fix_line_stable) simp_all
  then show ?thesis by (simp add: fix_line_rule1 [OF True])
next
  case rule1: False
  show ?thesis
  proof (cases "rstrip l = strip_nl l")
    case True
    with rule1 show ?thesis by (simp add: fix_line_rule0)
  next
    case False
    have "rstrip l = [] \<longrightarrow> length (nl_of l) \<le> 1"
    proof
      assume "rstrip l = []"
      then have "strip l = []" by (simp add: rstrip_Nil_iff strip_Nil_iff)
      with rule1 have "\<not> length l > 1" by simp
      then have "\<not> endswith l [CR, LF]" using endswith_CRLF [of l] by auto
      then show "length (nl_of l) \<le> 1" by (simp add: nl_of_def)
    qed
    with rstrip_last nl_of_cases
    have "fix_line (rstrip l @ nl_of l) = (NoFix, rstrip l @ nl_of l)"
      by (rule fix_line_stable)
    then show ?thesis by (simp add: fix_line_rule2 [OF rule1 False])
  qed
qed

lemma fix_line_changes: "fst (fix_line l) \<noteq> NoFix \<Longrightarrow> snd (fix_line l) \<noteq> l"
proof (cases "strip l = [] \<and> length l > 1")
  case True
  have "length (if endswith l [LF] then [LF] else []) \<le> 1" by simp
  with True show ?thesis by (auto simp: fix_line_rule1 [OF True])
next
  case rule1: False
  assume fired: "fst (fix_line l) \<noteq> NoFix"
  have rule2: "rstrip l \<noteq> strip_nl l"
  proof
    assume "rstrip l = strip_nl l"
    with rule1 have "fix_line l = (NoFix, l)" by (rule fix_line_rule0)
    with fired show False by simp
  qed
  have out: "snd (fix_line l) = rstrip l @ nl_of l"
    by (simp add: fix_line_rule2 [OF rule1 rule2])
  show ?thesis
  proof
    assume "snd (fix_line l) = l"
    with out have l: "l = rstrip l @ nl_of l" by simp
    have "strip_nl (rstrip l @ nl_of l) = rstrip l"
      by (rule strip_nl_append) (use rstrip_last [of l] not_space_not_nl nl_of_cases [of l] in auto)
    with l have "strip_nl l = rstrip l" by simp
    with rule2 show False by simp
  qed
qed

lemma fix_line_NoFix: "fst (fix_line l) = NoFix \<Longrightarrow> snd (fix_line l) = l"
  by (cases "strip l = [] \<and> length l > 1"; cases "rstrip l = strip_nl l")
     (simp_all add: fix_line_rule0 fix_line_rule1 fix_line_rule2)

lemma set_rstrip: "set (rstrip l) \<subseteq> set l"
  using rstrip_split [of l] by (metis Un_upper1 set_append)

lemma rstrip_butlast:
  assumes "endswith l [LF]"
  shows "set (rstrip l) \<subseteq> set (butlast l)"
proof -
  obtain t where t: "l = rstrip l @ t" using rstrip_split [of l] by blast
  have "t \<noteq> []"
  proof
    assume "t = []"
    with t have "rstrip l = l" by simp
    with assms rstrip_last [of l] isspace_LF show False by (auto simp: endswith_LF)
  qed
  then have "butlast (rstrip l @ t) = rstrip l @ butlast t" by (simp add: butlast_append)
  with t show ?thesis by (metis Un_upper1 set_append)
qed

lemma butlast_rstrip: "set (butlast (rstrip l)) \<subseteq> set (butlast l)"
proof -
  obtain t where t: "l = rstrip l @ t" using rstrip_split [of l] by blast
  have "set (butlast (rstrip l)) \<subseteq> set (butlast (rstrip l @ t))"
    by (auto simp: butlast_append dest: in_set_butlastD)
  with t show ?thesis by simp
qed

lemma fix_line_out:
  "snd (fix_line l) = l \<or> snd (fix_line l) = (if endswith l [LF] then [LF] else []) \<or>
   snd (fix_line l) = rstrip l @ nl_of l"
  by (cases "strip l = [] \<and> length l > 1"; cases "rstrip l = strip_nl l")
     (simp_all add: fix_line_rule0 fix_line_rule1 fix_line_rule2)

lemma wf_line_rstrip_nl:
  assumes "wf_line l"
  shows "wf_line (rstrip l @ nl_of l)"
proof -
  have nocrlf: "\<not> endswith l [CR, LF]"
    using assms endswith_CRLF [of l] by (auto simp: wf_line_def)
  show ?thesis
  proof (cases "endswith l [LF]")
    case True
    then have "nl_of l = [LF]" using nocrlf by (simp add: nl_of_def)
    then show ?thesis using assms set_rstrip [of l] rstrip_butlast [OF True]
      by (auto simp: wf_line_def CR_neq_LF)
  next
    case False
    then have "nl_of l = []" using nocrlf by (simp add: nl_of_def)
    then show ?thesis using assms set_rstrip [of l] butlast_rstrip [of l]
      by (auto simp: wf_line_def)
  qed
qed

lemma fix_line_wf:
  assumes "wf_line l"
  shows "wf_line (snd (fix_line l))"
proof -
  have "wf_line (if endswith l [LF] then [LF] else [])"
    by (simp add: wf_line_def CR_neq_LF)
  with assms wf_line_rstrip_nl [OF assms] fix_line_out [of l] show ?thesis by auto
qed

lemma fix_line_keeps_LF:
  assumes "wf_line l" and "endswith l [LF]"
  shows "endswith (snd (fix_line l)) [LF]"
proof -
  have "\<not> endswith l [CR, LF]" using assms endswith_CRLF [of l] by (auto simp: wf_line_def)
  with assms(2) have "nl_of l = [LF]" by (simp add: nl_of_def)
  with assms(2) fix_line_out [of l] show ?thesis by (auto simp: endswith_LF)
qed

section \<open>The loop over the lines\<close>

lemma fix_lines_eq:
  "fix_lines ls a b =
     (map (\<lambda>l. snd (fix_line l)) ls,
      a + length (filter (\<lambda>l. fst (fix_line l) = W293) ls),
      b + length (filter (\<lambda>l. fst (fix_line l) = W291) ls))"
proof (induction ls arbitrary: a b)
  case Nil
  show ?case by simp
next
  case (Cons l ls)
  obtain k new where k: "fix_line l = (k, new)" by (cases "fix_line l")
  show ?case by (cases k) (simp_all add: k Cons.IH)
qed

lemma fix_lines_unchanged_iff:
  "fst (fix_lines ls 0 0) = ls \<longleftrightarrow> (\<forall>l\<in>set ls. fst (fix_line l) = NoFix)"
proof -
  have "map (\<lambda>l. snd (fix_line l)) ls = ls \<longleftrightarrow> (\<forall>l\<in>set ls. snd (fix_line l) = l)"
    by (simp add: map_idI map_eq_conv [of _ _ "\<lambda>x. x", simplified])
  also have "\<dots> \<longleftrightarrow> (\<forall>l\<in>set ls. fst (fix_line l) = NoFix)"
    using fix_line_changes fix_line_NoFix by blast
  finally show ?thesis by (simp add: fix_lines_eq)
qed

lemma fix_lines_counts_zero_iff:
  "snd (fix_lines ls 0 0) = (0, 0) \<longleftrightarrow> (\<forall>l\<in>set ls. fst (fix_line l) = NoFix)"
proof -
  have "(\<forall>l\<in>set ls. fst (fix_line l) \<noteq> W293 \<and> fst (fix_line l) \<noteq> W291) \<longleftrightarrow>
        (\<forall>l\<in>set ls. fst (fix_line l) = NoFix)"
    by (metis fix_kind.exhaust fix_kind.distinct)
  then show ?thesis by (auto simp add: fix_lines_eq filter_empty_conv)
qed

lemma universal_newlines_no_CR: "CR \<notin> set (universal_newlines s)"
  by (induction s rule: universal_newlines.induct) (auto simp: CR_neq_LF)

lemma wf_lines_split: "CR \<notin> set s \<Longrightarrow> wf_lines (split_lines s)"
proof (induction s)
  case Nil
  show ?case by simp
next
  case (Cons c s)
  then have IH: "wf_lines (split_lines s)" and c: "c \<noteq> CR" by auto
  show ?case
  proof (cases "c = LF")
    case True
    then show ?thesis using IH by (simp add: wf_line_def endswith_LF CR_neq_LF)
  next
    case False
    show ?thesis
    proof (cases "split_lines s")
      case Nil
      then show ?thesis using False c by (simp add: wf_line_def)
    next
      case (Cons l ls)
      with IH have "wf_line l" and "ls = [] \<or> endswith l [LF]" and "wf_lines ls" by auto
      then show ?thesis using False c Cons
        by (auto simp: wf_line_def endswith_LF)
    qed
  qed
qed

lemma wf_lines_readlines: "wf_lines (readlines text)"
  unfolding readlines_def by (rule wf_lines_split) (rule universal_newlines_no_CR)

lemma split_lines_last: "LF \<notin> set (butlast l) \<Longrightarrow> split_lines l = (if l = [] then [] else [l])"
proof (induction l)
  case Nil
  show ?case by simp
next
  case (Cons c l)
  show ?case
  proof (cases "l = []")
    case True
    then show ?thesis by simp
  next
    case False
    with Cons.prems have "c \<noteq> LF" and "LF \<notin> set (butlast l)" by auto
    with Cons.IH False show ?thesis by simp
  qed
qed

lemma split_lines_first:
  "LF \<notin> set b \<Longrightarrow> split_lines (b @ LF # rest) = (b @ [LF]) # split_lines rest"
  by (induction b) auto

lemma split_lines_concat:
  "wf_lines ls \<Longrightarrow> split_lines (concat ls) = filter (\<lambda>l. l \<noteq> []) ls"
proof (induction ls)
  case Nil
  show ?case by simp
next
  case (Cons l ls)
  show ?case
  proof (cases "ls = []")
    case True
    with Cons.prems show ?thesis by (simp add: wf_line_def split_lines_last)
  next
    case False
    with Cons.prems have e: "endswith l [LF]" and w: "wf_line l" and r: "wf_lines ls" by auto
    from e obtain b where b: "l = b @ [LF]"
      by (metis endswith_LF append_butlast_last_id)
    with w have "LF \<notin> set b" by (simp add: wf_line_def)
    then have "split_lines (b @ LF # concat ls) = (b @ [LF]) # split_lines (concat ls)"
      by (rule split_lines_first)
    with b Cons.IH [OF r] show ?thesis by simp
  qed
qed

lemma wf_lines_fix: "wf_lines ls \<Longrightarrow> wf_lines (map (\<lambda>l. snd (fix_line l)) ls)"
  by (induction ls) (auto simp: fix_line_wf fix_line_keeps_LF)

lemma wf_lines_no_CR: "wf_lines ls \<Longrightarrow> CR \<notin> set (concat ls)"
  by (induction ls) (auto simp: wf_line_def)

lemma universal_newlines_Cons: "c \<noteq> CR \<Longrightarrow> universal_newlines (c # s) = c # universal_newlines s"
  by (cases s) simp_all

lemma universal_newlines_written:
  "CR \<notin> set s \<Longrightarrow>
   universal_newlines (concat (map (\<lambda>c. if c = LF then linesep os else [c]) s)) = s"
proof (induction s)
  case Nil
  show ?case by simp
next
  case (Cons c s)
  then show ?case
    by (cases os) (auto simp: universal_newlines_Cons CR_neq_LF [symmetric])
qed

lemma readlines_writelines:
  assumes "wf_lines ls"
  shows "readlines (writelines os ls) = filter (\<lambda>l. l \<noteq> []) ls"
proof -
  have "universal_newlines (writelines os ls) = concat ls"
    unfolding writelines_def using wf_lines_no_CR [OF assms] by (rule universal_newlines_written)
  then show ?thesis using assms by (simp add: readlines_def split_lines_concat)
qed

text \<open>What a second pass reads is left alone, also after a write that stopped early.\<close>

lemma wf_lines_take: "wf_lines ls \<Longrightarrow> wf_lines (take k ls)"
proof (induction ls arbitrary: k)
  case Nil
  show ?case by simp
next
  case (Cons l ls)
  then show ?case by (cases k) auto
qed

lemma stable_reread:
  assumes "wf_lines ms" and "\<forall>l\<in>set ms. fst (fix_line l) = NoFix"
  shows "fix_lines (readlines (writelines os ms)) 0 0 = (readlines (writelines os ms), 0, 0)"
proof -
  let ?reread = "filter (\<lambda>l. l \<noteq> []) ms"
  have rd: "readlines (writelines os ms) = ?reread"
    using assms(1) by (rule readlines_writelines)
  have stable: "\<forall>l\<in>set ?reread. fst (fix_line l) = NoFix"
    using assms(2) by simp
  then have "fst (fix_lines ?reread 0 0) = ?reread" and "snd (fix_lines ?reread 0 0) = (0, 0)"
    by (simp_all only: fix_lines_unchanged_iff fix_lines_counts_zero_iff)
  then have "fix_lines ?reread 0 0 = (?reread, 0, 0)" by (metis prod.collapse)
  with rd show ?thesis by simp
qed

lemma second_pass:
  assumes "wf_lines ls"
  shows "fix_lines (readlines (writelines os (take k (fst (fix_lines ls 0 0))))) 0 0 =
         (readlines (writelines os (take k (fst (fix_lines ls 0 0)))), 0, 0)"
proof (rule stable_reread)
  show "wf_lines (take k (fst (fix_lines ls 0 0)))"
    using wf_lines_fix [OF assms] by (simp add: fix_lines_eq wf_lines_take)
  show "\<forall>l\<in>set (take k (fst (fix_lines ls 0 0))). fst (fix_line l) = NoFix"
    by (auto simp: fix_lines_eq fix_line_idem dest!: in_set_takeD)
qed

section \<open>One file\<close>

lemma fix_read_fail:
  "read_error (files w p) = Some e \<Longrightarrow>
   fix_whitespace_in_file p w = ((0, 0), print (read_diag p e) w)"
  by (simp add: fix_whitespace_in_file_def open_read_def read_diag_def)

lemma fix_unchanged:
  assumes "read_error (files w p) = None"
    and "fst (fix_lines (readlines (content (files w p))) 0 0) = readlines (content (files w p))"
  shows "fix_whitespace_in_file p w = ((0, 0), w)"
proof -
  let ?L = "readlines (content (files w p))"
  have "\<forall>l\<in>set ?L. fst (fix_line l) = NoFix"
    using assms(2) by (simp only: fix_lines_unchanged_iff)
  then have "snd (fix_lines ?L 0 0) = (0, 0)" by (simp only: fix_lines_counts_zero_iff)
  with assms(2) have "fix_lines ?L 0 0 = (?L, 0, 0)" by (metis prod.collapse)
  with assms(1) show ?thesis by (simp add: fix_whitespace_in_file_def open_read_def)
qed

lemma fix_write_fail:
  assumes "read_error (files w p) = None"
    and "fst (fix_lines (readlines (content (files w p))) 0 0) \<noteq> readlines (content (files w p))"
    and "write_error (files w p) = Some e"
  shows "fix_whitespace_in_file p w = ((0, 0), print (write_diag p e) w)"
proof -
  obtain ls c where "fix_lines (readlines (content (files w p))) 0 0 = (ls, c)"
    by (cases "fix_lines (readlines (content (files w p))) 0 0")
  with assms show ?thesis
    by (cases c)
      (simp add: fix_whitespace_in_file_def open_read_def open_write_def write_diag_def)
qed

lemma fix_write_torn:
  assumes "read_error (files w p) = None"
    and "fst (fix_lines (readlines (content (files w p))) 0 0) \<noteq> readlines (content (files w p))"
    and "write_error (files w p) = None"
    and "torn_write (files w p) = Some (e, k)"
  shows "fix_whitespace_in_file p w = ((0, 0), print (write_diag p e) (torn p k w))"
proof -
  obtain ls c where "fix_lines (readlines (content (files w p))) 0 0 = (ls, c)"
    by (cases "fix_lines (readlines (content (files w p))) 0 0")
  with assms show ?thesis
    by (cases c)
      (simp add: fix_whitespace_in_file_def open_read_def open_write_def write_diag_def torn_def)
qed

lemma fix_write_ok:
  assumes "read_error (files w p) = None"
    and "fst (fix_lines (readlines (content (files w p))) 0 0) \<noteq> readlines (content (files w p))"
    and "write_error (files w p) = None"
    and "torn_write (files w p) = None"
  shows "fix_whitespace_in_file p w =
         (snd (fix_lines (readlines (content (files w p))) 0 0), rewritten p w)"
proof -
  obtain ls c where "fix_lines (readlines (content (files w p))) 0 0 = (ls, c)"
    by (cases "fix_lines (readlines (content (files w p))) 0 0")
  with assms show ?thesis
    by (cases c)
      (simp add: fix_whitespace_in_file_def open_read_def open_write_def rewritten_def)
qed

lemma fix_cases:
  obtains (read_fail) e where "read_error (files w p) = Some e"
      "fix_whitespace_in_file p w = ((0, 0), print (read_diag p e) w)"
  | (unchanged) "read_error (files w p) = None"
      "fst (fix_lines (readlines (content (files w p))) 0 0) = readlines (content (files w p))"
      "fix_whitespace_in_file p w = ((0, 0), w)"
  | (write_fail) e where "read_error (files w p) = None"
      "fst (fix_lines (readlines (content (files w p))) 0 0) \<noteq> readlines (content (files w p))"
      "write_error (files w p) = Some e"
      "fix_whitespace_in_file p w = ((0, 0), print (write_diag p e) w)"
  | (write_torn) e k where "read_error (files w p) = None"
      "fst (fix_lines (readlines (content (files w p))) 0 0) \<noteq> readlines (content (files w p))"
      "write_error (files w p) = None"
      "torn_write (files w p) = Some (e, k)"
      "fix_whitespace_in_file p w = ((0, 0), print (write_diag p e) (torn p k w))"
  | (write_ok) "read_error (files w p) = None"
      "fst (fix_lines (readlines (content (files w p))) 0 0) \<noteq> readlines (content (files w p))"
      "write_error (files w p) = None"
      "torn_write (files w p) = None"
      "fix_whitespace_in_file p w =
         (snd (fix_lines (readlines (content (files w p))) 0 0), rewritten p w)"
proof (cases "read_error (files w p)")
  case (Some e)
  then show ?thesis using read_fail fix_read_fail by blast
next
  case None
  show ?thesis
  proof (cases "fst (fix_lines (readlines (content (files w p))) 0 0) = readlines (content (files w p))")
    case True
    with None show ?thesis using unchanged fix_unchanged by blast
  next
    case False
    show ?thesis
    proof (cases "write_error (files w p)")
      case (Some e)
      with None False show ?thesis using write_fail fix_write_fail by blast
    next
      case wr: None
      show ?thesis
      proof (cases "torn_write (files w p)")
        case None
        with \<open>read_error (files w p) = None\<close> False wr show ?thesis
          using write_ok fix_write_ok by blast
      next
        case (Some ek)
        obtain e k where "ek = (e, k)" by (cases ek)
        with Some \<open>read_error (files w p) = None\<close> False wr show ?thesis
          using write_torn fix_write_torn by blast
      qed
    qed
  qed
qed

lemma files_print [simp]: "files (print s w) = files w"
  by (simp add: print_def)

lemma rewritten_files_neq: "files (rewritten p w) \<noteq> files w"
proof
  assume "files (rewritten p w) = files w"
  then have "writes (files (rewritten p w) p) = writes (files w p)" by simp
  then show False by (simp add: rewritten_def overwrite_def)
qed

lemma files_overwrite:
  "files (overwrite p text w) = (files w)(p := (files w p)\<lparr>content := text, writes := writes (files w p) + 1\<rparr>)"
  by (simp add: overwrite_def)

lemma reread_unchanged:
  assumes "read_error (files w' p) = None"
    and "content (files w' p) = writelines os (take k (fst (fix_lines (readlines text) 0 0)))"
  shows "fix_whitespace_in_file p w' = ((0, 0), w')"
proof (rule fix_unchanged)
  show "read_error (files w' p) = None" by (rule assms(1))
  show "fst (fix_lines (readlines (content (files w' p))) 0 0) =
        readlines (content (files w' p))"
    unfolding assms(2) by (simp add: second_pass [OF wf_lines_readlines])
qed

lemma second_run_after_rewrite:
  assumes "read_error (files w p) = None"
  shows "fix_whitespace_in_file p (rewritten p w) = ((0, 0), rewritten p w)"
proof (rule reread_unchanged)
  show "read_error (files (rewritten p w) p) = None"
    using assms by (simp add: rewritten_def files_overwrite)
  show "content (files (rewritten p w) p) =
        writelines (os_name w)
          (take (length (fst (fix_lines (readlines (content (files w p))) 0 0)))
             (fst (fix_lines (readlines (content (files w p))) 0 0)))"
    by (simp add: rewritten_def files_overwrite)
qed

lemma second_run_after_torn:
  assumes "read_error (files w p) = None"
  shows "fix_whitespace_in_file p (print d (torn p k w)) = ((0, 0), print d (torn p k w))"
proof (rule reread_unchanged)
  show "read_error (files (print d (torn p k w)) p) = None"
    using assms by (simp add: torn_def files_overwrite)
  show "content (files (print d (torn p k w)) p) =
        writelines (os_name w) (take k (fst (fix_lines (readlines (content (files w p))) 0 0)))"
    by (simp add: torn_def files_overwrite)
qed

lemma stderr_print [simp]: "stderr (print s w) = stderr w"
  by (simp add: print_def)

lemma stdout_print [simp]: "stdout (print s w) = stdout w @ [s]"
  by (simp add: print_def)

lemma print_eq: "print s w = w\<lparr>stdout := stdout w @ [s]\<rparr>"
  by (simp add: print_def)

lemma changed_iff_fired:
  "fst (fix_lines ls 0 0) \<noteq> ls \<longleftrightarrow> (\<exists>l\<in>set ls. fst (fix_line l) \<noteq> NoFix)"
  by (simp add: fix_lines_unchanged_iff)

lemma main_loop_zero:
  "fst (fix_whitespace_in_file p w) = (0, 0) \<Longrightarrow>
   main_loop (p # rest) totals w = main_loop rest totals (snd (fix_whitespace_in_file p w))"
  by (cases totals; cases "fix_whitespace_in_file p w") auto




section \<open>Idempotence\<close>

text \<open>
  C4.  The Whitespace Fixer is idempotent: whatever the world and the path, a second run on
  the world the first run left returns the counts (0, 0) and leaves every file as the
  first run left it (same text, no further write).
\<close>

theorem fixer_idempotent:
  "fst (fix_whitespace_in_file p (snd (fix_whitespace_in_file p w))) = (0, 0) \<and>
   files (snd (fix_whitespace_in_file p (snd (fix_whitespace_in_file p w)))) =
     files (snd (fix_whitespace_in_file p w))"
proof (cases rule: fix_cases [of w p])
  case (read_fail e)
  have "read_error (files (print (read_diag p e) w) p) = Some e"
    using read_fail(1) by simp
  then show ?thesis by (simp add: read_fail(2) fix_read_fail)
next
  case unchanged
  then show ?thesis by simp
next
  case (write_fail e)
  have "fix_whitespace_in_file p (print (write_diag p e) w) =
        ((0, 0), print (write_diag p e) (print (write_diag p e) w))"
    by (rule fix_write_fail) (use write_fail in simp_all)
  then show ?thesis by (simp add: write_fail(4))
next
  case (write_torn e k)
  then show ?thesis by (simp add: second_run_after_torn)
next
  case write_ok
  then show ?thesis by (simp add: second_run_after_rewrite)
qed

section \<open>Writing the file\<close>

lemma counts_nonzero_iff:
  "snd (fix_lines ls 0 0) \<noteq> (0, 0) \<longleftrightarrow> (\<exists>l\<in>set ls. fst (fix_line l) \<noteq> NoFix)"
  using fix_lines_counts_zero_iff [of ls] by blast

lemma files_rewritten:
  "files (rewritten p w) =
     (files w)(p := (files w p)
        \<lparr>content := writelines (os_name w)
                      (map (\<lambda>l. snd (fix_line l)) (readlines (content (files w p)))),
         writes := writes (files w p) + 1\<rparr>)"
  by (simp add: rewritten_def files_overwrite fix_lines_eq)

lemma torn_files_neq: "files (torn p k w) \<noteq> files w"
proof
  assume "files (torn p k w) = files w"
  then have "writes (files (torn p k w) p) = writes (files w p)" by simp
  then show False by (simp add: torn_def overwrite_def)
qed

text \<open>
  C5, as the code has it.  For a file that can be read and whose write does not fail, the
  files of the world differ after the run exactly when the rewritten list of lines differs
  from the one that was read, which is exactly when the returned counts are not both
  zero; the file then holds the fixed lines, every LF written as the line separator of
  the platform, and has been modified once.  The list of lines changes exactly when a
  line matches one of the two rules.  Whatever the file, the files change only if the
  file was read, could be opened for writing and a line changed; when the file is read
  and no line changes, the run returns (0, 0) and leaves the world untouched; and when
  the file is read and a line changes, either the file is overwritten with the fixed
  lines and the counts of the loop are returned, or the run returns (0, 0) and its last
  line of output is a write diagnostic.
\<close>

theorem written_iff_changed:
  "(let L = readlines (content (files w p)); r = fix_whitespace_in_file p w in
    (read_error (files w p) = None \<and> write_error (files w p) = None \<and>
     torn_write (files w p) = None \<longrightarrow>
       (files (snd r) \<noteq> files w \<longleftrightarrow> fst (fix_lines L 0 0) \<noteq> L) \<and>
       (fst r \<noteq> (0, 0) \<longleftrightarrow> fst (fix_lines L 0 0) \<noteq> L) \<and>
       (fst (fix_lines L 0 0) \<noteq> L \<longrightarrow>
          files (snd r) =
            (files w)(p := (files w p)
               \<lparr>content := writelines (os_name w) (map (\<lambda>l. snd (fix_line l)) L),
                writes := writes (files w p) + 1\<rparr>))) \<and>
    (fst (fix_lines L 0 0) \<noteq> L \<longleftrightarrow> (\<exists>l\<in>set L. fst (fix_line l) \<noteq> NoFix)) \<and>
    (files (snd r) \<noteq> files w \<longrightarrow>
       read_error (files w p) = None \<and> write_error (files w p) = None \<and>
       fst (fix_lines L 0 0) \<noteq> L) \<and>
    (read_error (files w p) = None \<and> fst (fix_lines L 0 0) = L \<longrightarrow> r = ((0, 0), w)) \<and>
    (read_error (files w p) = None \<and> fst (fix_lines L 0 0) \<noteq> L \<longrightarrow>
       r = (snd (fix_lines L 0 0), rewritten p w) \<or>
       (\<exists>e. fst r = (0, 0) \<and> stdout (snd r) = stdout w @ [write_diag p e])))"
proof -
  let ?L = "readlines (content (files w p))"
  have fired: "fst (fix_lines ?L 0 0) \<noteq> ?L \<longleftrightarrow> (\<exists>l\<in>set ?L. fst (fix_line l) \<noteq> NoFix)"
    by (rule changed_iff_fired)
  show ?thesis
  proof (cases rule: fix_cases [of w p])
    case (read_fail e)
    then show ?thesis using fired by (simp add: Let_def)
  next
    case unchanged
    then show ?thesis using fired by (simp add: Let_def)
  next
    case (write_fail e)
    then show ?thesis using fired by (auto simp add: Let_def)
  next
    case (write_torn e k)
    have "stdout (torn p k w) = stdout w" by (simp add: torn_def overwrite_def)
    with write_torn show ?thesis using fired torn_files_neq [of p k w]
      by (auto simp add: Let_def)
  next
    case write_ok
    from write_ok(2) have "snd (fix_lines ?L 0 0) \<noteq> (0, 0)"
      by (simp only: counts_nonzero_iff changed_iff_fired)
    with write_ok fired rewritten_files_neq [of p w] files_rewritten [of p w]
    show ?thesis by (simp add: Let_def)
  qed
qed

theorem written_iff_changed_witness:
  "read_error (files (one_file_world Posix (plain_file (py ''foo  '' @ [LF]))) (py ''./a.py'')) = None \<and>
   write_error (files (one_file_world Posix (plain_file (py ''foo  '' @ [LF]))) (py ''./a.py'')) = None \<and>
   torn_write (files (one_file_world Posix (plain_file (py ''foo  '' @ [LF]))) (py ''./a.py'')) = None \<and>
   fst (fix_lines (readlines (py ''foo  '' @ [LF])) 0 0) \<noteq> readlines (py ''foo  '' @ [LF]) \<and>
   files (snd (fix_whitespace_in_file (py ''./a.py'')
            (one_file_world Posix (plain_file (py ''foo  '' @ [LF]))))) \<noteq>
     files (one_file_world Posix (plain_file (py ''foo  '' @ [LF]))) \<and>
   fst (fix_whitespace_in_file (py ''./a.py'')
            (one_file_world Posix (plain_file (py ''foo  '' @ [LF])))) \<noteq> (0, 0) \<and>
   content (files (snd (fix_whitespace_in_file (py ''./a.py'')
            (one_file_world Posix (plain_file (py ''foo  '' @ [LF]))))) (py ''./a.py'')) =
     py ''foo'' @ [LF] \<and>
   writes (files (snd (fix_whitespace_in_file (py ''./a.py'')
            (one_file_world Posix (plain_file (py ''foo  '' @ [LF]))))) (py ''./a.py'')) = 1 \<and>
   content (files (snd (fix_whitespace_in_file (py ''./a.py'')
            (one_file_world Nt (plain_file (py ''foo  '' @ [LF]))))) (py ''./a.py'')) =
     py ''foo'' @ [CR, LF] \<and>
   fst (fix_lines (readlines (py ''foo'' @ [LF])) 0 0) = readlines (py ''foo'' @ [LF]) \<and>
   fix_whitespace_in_file (py ''./a.py'') (one_file_world Posix (plain_file (py ''foo'' @ [LF]))) =
     ((0, 0), one_file_world Posix (plain_file (py ''foo'' @ [LF])))"
proof -
  let ?p = "py ''./a.py''"
  let ?dirty = "py ''foo  '' @ [LF]"
  let ?W = "one_file_world Posix (plain_file ?dirty)"
  let ?N = "one_file_world Nt (plain_file ?dirty)"
  let ?V = "one_file_world Posix (plain_file (py ''foo'' @ [LF]))"
  have c: "content (files ?W ?p) = ?dirty" "content (files ?N ?p) = ?dirty"
    "content (files ?V ?p) = py ''foo'' @ [LF]"
    by (simp_all add: one_file_world_def plain_file_def)
  have os: "os_name ?W = Posix" "os_name ?N = Nt"
    by (simp_all add: one_file_world_def)
  have r: "read_error (files ?W ?p) = None" "read_error (files ?N ?p) = None"
    "read_error (files ?V ?p) = None"
    and wr: "write_error (files ?W ?p) = None" "write_error (files ?N ?p) = None"
    and tw: "torn_write (files ?W ?p) = None" "torn_write (files ?N ?p) = None"
    and n: "writes (files ?W ?p) = 0"
    by (simp_all add: one_file_world_def plain_file_def)
  have ch: "fst (fix_lines (readlines ?dirty) 0 0) \<noteq> readlines ?dirty"
    by (simp add: line_eval)
  have same: "fst (fix_lines (readlines (py ''foo'' @ [LF])) 0 0) = readlines (py ''foo'' @ [LF])"
    by (simp add: line_eval)
  have posix: "writelines Posix (map (\<lambda>l. snd (fix_line l)) (readlines ?dirty)) = py ''foo'' @ [LF]"
    by (simp add: line_eval writelines_def)
  have nt: "writelines Nt (map (\<lambda>l. snd (fix_line l)) (readlines ?dirty)) = py ''foo'' @ [CR, LF]"
    by (simp add: line_eval writelines_def)
  note W = written_iff_changed [of ?W ?p, unfolded Let_def]
  note N = written_iff_changed [of ?N ?p, unfolded Let_def]
  note V = written_iff_changed [of ?V ?p, unfolded Let_def]
  have chW: "fst (fix_lines (readlines (content (files ?W ?p))) 0 0) \<noteq>
      readlines (content (files ?W ?p))"
    and chN: "fst (fix_lines (readlines (content (files ?N ?p))) 0 0) \<noteq>
      readlines (content (files ?N ?p))"
    and sameV: "fst (fix_lines (readlines (content (files ?V ?p))) 0 0) =
      readlines (content (files ?V ?p))"
    using ch same by (simp_all add: c)
  from W r(1) wr(1) tw(1) chW have d: "files (snd (fix_whitespace_in_file ?p ?W)) \<noteq> files ?W"
    and nz: "fst (fix_whitespace_in_file ?p ?W) \<noteq> (0, 0)"
    and fw: "files (snd (fix_whitespace_in_file ?p ?W)) =
      (files ?W)(?p := (files ?W ?p)
         \<lparr>content := writelines (os_name ?W)
                       (map (\<lambda>l. snd (fix_line l)) (readlines (content (files ?W ?p)))),
          writes := writes (files ?W ?p) + 1\<rparr>)"
    by blast+
  from N r(2) wr(2) tw(2) chN have fn: "files (snd (fix_whitespace_in_file ?p ?N)) =
      (files ?N)(?p := (files ?N ?p)
         \<lparr>content := writelines (os_name ?N)
                       (map (\<lambda>l. snd (fix_line l)) (readlines (content (files ?N ?p)))),
          writes := writes (files ?N ?p) + 1\<rparr>)"
    by blast
  have cw: "content (files (snd (fix_whitespace_in_file ?p ?W)) ?p) = py ''foo'' @ [LF]"
    and ww: "writes (files (snd (fix_whitespace_in_file ?p ?W)) ?p) = 1"
    unfolding fw by (simp_all add: os c posix n)
  have cn: "content (files (snd (fix_whitespace_in_file ?p ?N)) ?p) = py ''foo'' @ [CR, LF]"
    unfolding fn by (simp add: os c nt)
  from V r(3) sameV have v: "fix_whitespace_in_file ?p ?V = ((0, 0), ?V)" by blast
  from r(1) wr(1) tw(1) ch d nz cw ww cn same v show ?thesis by blast
qed

text \<open>
  The claim as the specification states it fails when the write fails.  On a read-only
  file a line changes, yet nothing is written and the counts are (0, 0): the file is not
  written whenever a line changed, and zero counts do not mean that no line matched.  On
  a full disk the counts are (0, 0) as well, and the file has been emptied.
\<close>

theorem zero_counts_after_failed_write:
  "fix_line (py ''x = 1  '' @ [LF]) = (W291, py ''x = 1'' @ [LF]) \<and>
   fst (fix_lines (readlines (py ''x = 1  '' @ [LF])) 0 0) \<noteq> readlines (py ''x = 1  '' @ [LF]) \<and>
   fst (fix_whitespace_in_file (py ''./a.py'')
          (one_file_world Posix (read_only_file (py ''x = 1  '' @ [LF])))) = (0, 0) \<and>
   content (files (snd (fix_whitespace_in_file (py ''./a.py'')
          (one_file_world Posix (read_only_file (py ''x = 1  '' @ [LF]))))) (py ''./a.py'')) =
     py ''x = 1  '' @ [LF] \<and>
   writes (files (snd (fix_whitespace_in_file (py ''./a.py'')
          (one_file_world Posix (read_only_file (py ''x = 1  '' @ [LF]))))) (py ''./a.py'')) = 0 \<and>
   fst (fix_whitespace_in_file (py ''./a.py'')
          (one_file_world Posix (full_disk_file (py ''x = 1  '' @ [LF])))) = (0, 0) \<and>
   content (files (snd (fix_whitespace_in_file (py ''./a.py'')
          (one_file_world Posix (full_disk_file (py ''x = 1  '' @ [LF]))))) (py ''./a.py'')) = []"
  by (simp add: line_eval file_eval)

section \<open>Failures of the file system\<close>

text \<open>
  C6.  When the file cannot be opened and read, or when its lines changed and it cannot be
  opened for writing, the fixer returns the counts (0, 0) and the only effect is one more
  line on the output, the diagnostic that names the file and the error; the loop of the
  driver then goes on with the rest of the paths, the totals as they were.
\<close>

theorem io_failure_contained:
  "(read_error (files w p) = Some e \<longrightarrow>
      fix_whitespace_in_file p w = ((0, 0), w\<lparr>stdout := stdout w @ [read_diag p e]\<rparr>) \<and>
      main_loop (p # rest) totals w =
        main_loop rest totals (w\<lparr>stdout := stdout w @ [read_diag p e]\<rparr>)) \<and>
   (read_error (files w p) = None \<and>
    fst (fix_lines (readlines (content (files w p))) 0 0) \<noteq> readlines (content (files w p)) \<and>
    write_error (files w p) = Some e \<longrightarrow>
      fix_whitespace_in_file p w = ((0, 0), w\<lparr>stdout := stdout w @ [write_diag p e]\<rparr>) \<and>
      main_loop (p # rest) totals w =
        main_loop rest totals (w\<lparr>stdout := stdout w @ [write_diag p e]\<rparr>))"
proof (intro conjI impI)
  assume "read_error (files w p) = Some e"
  then show r: "fix_whitespace_in_file p w = ((0, 0), w\<lparr>stdout := stdout w @ [read_diag p e]\<rparr>)"
    by (simp add: fix_read_fail print_eq)
  show "main_loop (p # rest) totals w =
        main_loop rest totals (w\<lparr>stdout := stdout w @ [read_diag p e]\<rparr>)"
    using main_loop_zero [of p w rest totals] by (simp add: r)
next
  assume "read_error (files w p) = None \<and>
    fst (fix_lines (readlines (content (files w p))) 0 0) \<noteq> readlines (content (files w p)) \<and>
    write_error (files w p) = Some e"
  then show r: "fix_whitespace_in_file p w = ((0, 0), w\<lparr>stdout := stdout w @ [write_diag p e]\<rparr>)"
    by (simp add: fix_write_fail print_eq)
  show "main_loop (p # rest) totals w =
        main_loop rest totals (w\<lparr>stdout := stdout w @ [write_diag p e]\<rparr>)"
    using main_loop_zero [of p w rest totals] by (simp add: r)
qed

theorem io_failure_contained_witness:
  "read_error (files (one_file_world Posix unreadable_file) (py ''./a.py'')) =
     Some (Exception (py ''Permission denied'')) \<and>
   fix_whitespace_in_file (py ''./a.py'') (one_file_world Posix unreadable_file) =
     ((0, 0), (one_file_world Posix unreadable_file)
        \<lparr>stdout := [py ''Error reading ./a.py: Permission denied'']\<rparr>) \<and>
   write_error (files (one_file_world Posix (read_only_file (py ''x = 1  '' @ [LF]))) (py ''./a.py'')) =
     Some (Exception (py ''Read-only file system'')) \<and>
   fix_whitespace_in_file (py ''./a.py'') (one_file_world Posix (read_only_file (py ''x = 1  '' @ [LF]))) =
     ((0, 0), (one_file_world Posix (read_only_file (py ''x = 1  '' @ [LF])))
        \<lparr>stdout := [py ''Error writing ./a.py: Read-only file system'']\<rparr>)"
proof -
  let ?p = "py ''./a.py''"
  let ?U = "one_file_world Posix unreadable_file"
  let ?R = "one_file_world Posix (read_only_file (py ''x = 1  '' @ [LF]))"
  let ?e = "Exception (py ''Permission denied'')"
  let ?f = "Exception (py ''Read-only file system'')"
  have u: "read_error (files ?U ?p) = Some ?e"
    by (simp add: one_file_world_def unreadable_file_def)
  have so: "stdout ?U = []" "stdout ?R = []" by (simp_all add: one_file_world_def)
  have d: "read_diag ?p ?e = py ''Error reading ./a.py: Permission denied''"
    by (simp add: read_diag_def py_def)
  have c: "content (files ?R ?p) = py ''x = 1  '' @ [LF]"
    and r: "read_error (files ?R ?p) = None"
    and wr: "write_error (files ?R ?p) = Some ?f"
    by (simp_all add: one_file_world_def read_only_file_def)
  have ch: "fst (fix_lines (readlines (py ''x = 1  '' @ [LF])) 0 0) \<noteq> readlines (py ''x = 1  '' @ [LF])"
    by (simp add: line_eval)
  have d': "write_diag ?p ?f = py ''Error writing ./a.py: Read-only file system''"
    by (simp add: write_diag_def py_def)
  from io_failure_contained [of ?U ?p ?e "[]" "(0, 0, 0)"] u
  have "fix_whitespace_in_file ?p ?U = ((0, 0), ?U\<lparr>stdout := [py ''Error reading ./a.py: Permission denied'']\<rparr>)"
    by (simp add: so d)
  moreover from io_failure_contained [of ?R ?p ?f "[]" "(0, 0, 0)"] r wr ch c
  have "fix_whitespace_in_file ?p ?R = ((0, 0), ?R\<lparr>stdout := [py ''Error writing ./a.py: Read-only file system'']\<rparr>)"
    by (simp add: so d')
  ultimately show ?thesis using u wr by blast
qed




section \<open>Terminators and blank lines\<close>

text \<open>
  C1.  A line that ends in CR LF is to keep CR LF.  The code does not: handed the line of
  three spaces and CR LF, the blank-line rule stores a bare LF; and no line that
  \<open>readlines\<close> returns ends in CR LF, since text mode has turned it into LF, so on POSIX
  the file \<open>foo\<close>, two spaces, CR LF is written as \<open>foo\<close>, LF, and on Windows the
  file \<open>foo\<close>, two spaces, LF is written with CR LF.
\<close>

theorem crlf_not_preserved:
  "fix_line (py ''   '' @ [CR, LF]) = (W293, [LF]) \<and>
   readlines (py ''foo  '' @ [CR, LF]) = [py ''foo  '' @ [LF]] \<and>
   content (files (snd (fix_whitespace_in_file (py ''./a.py'')
       (one_file_world Posix (plain_file (py ''foo  '' @ [CR, LF]))))) (py ''./a.py'')) =
     py ''foo'' @ [LF] \<and>
   content (files (snd (fix_whitespace_in_file (py ''./a.py'')
       (one_file_world Nt (plain_file (py ''foo  '' @ [LF]))))) (py ''./a.py'')) =
     py ''foo'' @ [CR, LF]"
  by (simp add: line_eval file_eval)

text \<open>
  C2.  A line of whitespace only is to count as a blank-line fix, never as a
  trailing-whitespace fix.  The code counts a last line that is one space, or one tab,
  with no terminator, as trailing whitespace: the file \<open>x = 1\<close>, LF, space yields the
  counts (0, 1).
\<close>

theorem lone_space_counted_as_trailing:
  "strip (py '' '') = [] \<and> fix_line (py '' '') = (W291, []) \<and>
   strip [0x09] = [] \<and> fix_line [0x09] = (W291, []) \<and>
   readlines (py ''x = 1'' @ [LF] @ py '' '') = [py ''x = 1'' @ [LF], py '' ''] \<and>
   fst (fix_whitespace_in_file (py ''./a.py'')
       (one_file_world Posix (plain_file (py ''x = 1'' @ [LF] @ py '' '')))) = (0, 1)"
  by (simp add: line_eval file_eval)

text \<open>
  C3.  The blank-line rule is to apply exactly when the stripped line is empty and the line
  is longer than its terminator.  The code compares the length with 1: the line of one
  space with no terminator is stripped to nothing and is longer than its (empty)
  terminator, yet the rule does not apply and the line is counted as trailing whitespace;
  and the bare CR LF line, of length 2, is counted as a blank-line fix and becomes LF.
\<close>

theorem blank_rule_compares_with_one:
  "strip (py '' '') = [] \<and> nl_of (py '' '') = [] \<and>
   length (py '' '') > length (nl_of (py '' '')) \<and> fst (fix_line (py '' '')) = W291 \<and>
   nl_of [CR, LF] = [CR, LF] \<and> fix_line [CR, LF] = (W293, [LF])"
  by (simp add: line_eval nl_of_def)

section \<open>The Discoverer\<close>







text \<open>
  C10.  The exclusions are applied to the subdirectories met during the walk, never to the
  root: the name of the root of \<open>main\<close>, a single dot, would be skipped as a
  subdirectory, yet whatever the root is called, every \<open>.py\<close> file directly under it is
  returned.
\<close>

theorem root_always_walked:
  "skipped root_dir \<and>
   (file \<in> set (dir_files t) \<and> endswith file (py ''.py'') \<longrightarrow>
      path_join root file \<in> set (find_python_files root t))"
proof -
  have "skipped root_dir" by (simp add: skipped_def root_dir_def startswith_def)
  moreover have "file \<in> set (dir_files t) \<and> endswith file (py ''.py'') \<longrightarrow>
      path_join root file \<in> set (find_python_files root t)"
    by (cases t) auto
  ultimately show ?thesis by blast
qed

theorem root_always_walked_witness:
  "skipped root_dir \<and> startswith root_dir (py ''.'') \<and>
   py ''a.py'' \<in> set (dir_files example_tree) \<and>
   endswith (py ''a.py'') (py ''.py'') \<and>
   path_join root_dir (py ''a.py'') = py ''./a.py'' \<and>
   py ''./a.py'' \<in> set (find_python_files root_dir example_tree)"
proof -
  have f: "py ''a.py'' \<in> set (dir_files example_tree)"
    by (simp add: example_tree_def)
  have e: "endswith (py ''a.py'') (py ''.py'')"
    by (simp add: endswith_def py_def)
  have j: "path_join root_dir (py ''a.py'') = py ''./a.py''"
    by (simp add: path_join_def root_dir_def startswith_def endswith_def py_def)
  have h: "startswith root_dir (py ''.'')"
    by (simp add: root_dir_def startswith_def)
  from root_always_walked [of "py ''a.py''" example_tree root_dir] f e
  have "skipped root_dir"
    and "path_join root_dir (py ''a.py'') \<in> set (find_python_files root_dir example_tree)"
    by simp_all
  with f e j h show ?thesis by simp
qed

section \<open>The report of the driver\<close>











end
